theory Spec2Isabelle
  imports Main
begin

section \<open>Data model\<close>

text \<open>
  The interfaces of \<^verbatim>\<open>types/index.ts\<close> and the values the component of
  \<^verbatim>\<open>app/page.tsx\<close> handles. A browser \<^verbatim>\<open>File\<close> is reduced to the
  attributes the component reads (\<^verbatim>\<open>type\<close>, \<^verbatim>\<open>size\<close>) and a name that tells two
  files apart. The numbers of the program are small integers, on which JavaScript's
  doubles are exact.
\<close>

record File =
  file_name :: string
  file_type :: string
  file_size :: nat

record PredictionResponse =
  success :: bool
  prediction :: string
  confidence_class :: int
  message :: string

text \<open>
  \<^verbatim>\<open>APIError.message\<close> is declared a string, but the body is unchecked JSON and
  the code provides for a missing one (\<^verbatim>\<open>errorData.message || 'Analysis failed'\<close>),
  so it is optional here.
\<close>

record APIError =
  api_error :: string
  api_message :: "string option"

text \<open>The optional \<^verbatim>\<open>error\<close> of \<^verbatim>\<open>UploadStatus\<close> is never written or read.\<close>

record UploadStatus =
  isLoading :: bool
  progress :: int

record ValidationResult =
  isValid :: bool
  error :: "string option"

datatype Variant = Default | Destructive

record Toast =
  title :: string
  description :: "string option"
  variant :: Variant

text \<open>A thrown value: an \<^verbatim>\<open>Error\<close> with its message, or anything else.\<close>

datatype Thrown = Error string | NonError

section \<open>Validation\<close>

definition MAX_FILE_SIZE :: nat where
  "MAX_FILE_SIZE = 5 * 1024 * 1024"

definition ACCEPTED_IMAGE_TYPES :: "string list" where
  "ACCEPTED_IMAGE_TYPES = [''image/jpeg'', ''image/png'', ''image/gif'']"

text \<open>
  \<^verbatim>\<open>validateFile\<close> is typed on \<^verbatim>\<open>File\<close>, but \<^verbatim>\<open>handleDrop\<close> passes
  \<^verbatim>\<open>files[0]\<close>, which is undefined for an empty drop; the function tests for it.
\<close>

definition validateFile :: "File option \<Rightarrow> ValidationResult" where
  "validateFile file =
     (case file of
        None \<Rightarrow> \<lparr>isValid = False, error = Some ''Please select a file''\<rparr>
      | Some f \<Rightarrow>
          if file_type f \<notin> set ACCEPTED_IMAGE_TYPES then
            \<lparr>isValid = False,
             error = Some ''Please upload a valid image file (JPEG, PNG, or GIF)''\<rparr>
          else if file_size f > MAX_FILE_SIZE then
            \<lparr>isValid = False, error = Some ''File size must be less than 5MB''\<rparr>
          else \<lparr>isValid = True, error = None\<rparr>)"

section \<open>Component state and its environment\<close>

text \<open>
  The four \<^verbatim>\<open>useState\<close> cells of \<^verbatim>\<open>Home\<close>, followed by what the component
  does to its environment: the notifications raised, the object URLs created and not
  yet revoked, the running \<^verbatim>\<open>setInterval\<close> and pending \<^verbatim>\<open>setTimeout\<close>
  timers, and the calls of \<^verbatim>\<open>handleSubmit\<close> suspended at an \<^verbatim>\<open>await\<close>.

  An object URL is identified by the number of its creation; \<^verbatim>\<open>createObjectURL\<close>
  never returns the empty string, so \<^verbatim>\<open>if (preview)\<close> is the test for a handle
  being present.
\<close>

text \<open>
  The callback of the interval is \<^verbatim>\<open>() => updateProgress(uploadStatus.progress + 5)\<close>,
  where \<^verbatim>\<open>uploadStatus\<close> is the constant of the render in which
  \<^verbatim>\<open>handleSubmit\<close> was created: \<open>interval_captured\<close> is its \<^verbatim>\<open>progress\<close>.
\<close>

record Interval =
  interval_id :: nat
  interval_captured :: int
  interval_delay :: nat

record Timeout =
  timeout_id :: nat
  timeout_delay :: nat

datatype Stage = AwaitFetch | AwaitErrorBody | AwaitBody

text \<open>
  A suspended \<^verbatim>\<open>handleSubmit\<close>: its local \<^verbatim>\<open>progressInterval\<close>, the file put
  in the form data of its request, and the \<^verbatim>\<open>await\<close> it is stopped at
  (\<^verbatim>\<open>fetch\<close>, \<^verbatim>\<open>response.json()\<close> of a response that is not ok, or of one
  that is).
\<close>

record Submission =
  progressInterval :: nat
  image :: File
  stage :: Stage

record Home =
  selectedFile :: "File option"
  preview :: "nat option"
  predictionResult :: "PredictionResponse option"
  uploadStatus :: UploadStatus
  toasts :: "Toast list"
  objectURLs :: "nat list"
  nextURL :: nat
  intervals :: "Interval list"
  timeouts :: "Timeout list"
  nextTimer :: nat
  submissions :: "Submission list"

definition initial :: Home where
  "initial =
     \<lparr>selectedFile = None, preview = None, predictionResult = None,
      uploadStatus = \<lparr>isLoading = False, progress = 0\<rparr>,
      toasts = [], objectURLs = [], nextURL = 0,
      intervals = [], timeouts = [], nextTimer = 1, submissions = []\<rparr>"

subsection \<open>Environment primitives\<close>

definition toast :: "Toast \<Rightarrow> Home \<Rightarrow> Home" where
  "toast t s = s\<lparr>toasts := toasts s @ [t]\<rparr>"

text \<open>Revoking a URL that is not live does nothing and does not throw.\<close>

definition revokeObjectURL :: "nat \<Rightarrow> Home \<Rightarrow> Home" where
  "revokeObjectURL u s = s\<lparr>objectURLs := removeAll u (objectURLs s)\<rparr>"

definition createObjectURL :: "Home \<Rightarrow> nat \<times> Home" where
  "createObjectURL s =
     (nextURL s, s\<lparr>objectURLs := objectURLs s @ [nextURL s], nextURL := Suc (nextURL s)\<rparr>)"

definition setInterval :: "int \<Rightarrow> nat \<Rightarrow> Home \<Rightarrow> nat \<times> Home" where
  "setInterval captured delay s =
     (nextTimer s,
      s\<lparr>intervals := intervals s @
           [\<lparr>interval_id = nextTimer s, interval_captured = captured,
             interval_delay = delay\<rparr>],
        nextTimer := Suc (nextTimer s)\<rparr>)"

definition clearInterval :: "nat \<Rightarrow> Home \<Rightarrow> Home" where
  "clearInterval i s = s\<lparr>intervals := filter (\<lambda>t. interval_id t \<noteq> i) (intervals s)\<rparr>"

definition setTimeout :: "nat \<Rightarrow> Home \<Rightarrow> Home" where
  "setTimeout delay s =
     s\<lparr>timeouts := timeouts s @ [\<lparr>timeout_id = nextTimer s, timeout_delay = delay\<rparr>],
       nextTimer := Suc (nextTimer s)\<rparr>"

subsection \<open>Selection, preview and reset\<close>

definition handleFileSelection :: "File option \<Rightarrow> Home \<Rightarrow> Home" where
  "handleFileSelection file s =
     (let validation = validateFile file in
      if \<not> isValid validation then
        toast \<lparr>title = ''Invalid File'', description = error validation,
               variant = Destructive\<rparr> s
      else
        (case file of
           None \<Rightarrow> s
         | Some f \<Rightarrow>
             let s1 = (case preview s of Some u \<Rightarrow> revokeObjectURL u s | None \<Rightarrow> s);
                 (u', s2) = createObjectURL s1
             in s2\<lparr>selectedFile := Some f, preview := Some u', predictionResult := None\<rparr>))"

text \<open>\<^verbatim>\<open>e.dataTransfer.files[0]\<close> is undefined when nothing was dropped.\<close>

definition handleDrop :: "File list \<Rightarrow> Home \<Rightarrow> Home" where
  "handleDrop files s =
     handleFileSelection (case files of [] \<Rightarrow> None | f # _ \<Rightarrow> Some f) s"

definition handleFileInputChange :: "File list \<Rightarrow> Home \<Rightarrow> Home" where
  "handleFileInputChange files s =
     (case files of [] \<Rightarrow> s | f # _ \<Rightarrow> handleFileSelection (Some f) s)"

definition resetForm :: "Home \<Rightarrow> Home" where
  "resetForm s =
     (let s1 = (case preview s of Some u \<Rightarrow> revokeObjectURL u s | None \<Rightarrow> s)
      in s1\<lparr>selectedFile := None, preview := None, predictionResult := None,
            uploadStatus := \<lparr>isLoading = False, progress = 0\<rparr>\<rparr>)"

text \<open>
  The cleanup of \<^verbatim>\<open>useEffect(..., [preview])\<close>: it runs with the \<^verbatim>\<open>preview\<close> of
  the render that installed it, when \<^verbatim>\<open>preview\<close> has changed and on unmount.
\<close>

definition effectCleanup :: "nat option \<Rightarrow> Home \<Rightarrow> Home" where
  "effectCleanup old s = (case old of Some u \<Rightarrow> revokeObjectURL u s | None \<Rightarrow> s)"

definition unmount :: "Home \<Rightarrow> Home" where
  "unmount s = effectCleanup (preview s) s"

subsection \<open>Submission\<close>

definition updateProgress :: "int \<Rightarrow> Home \<Rightarrow> Home" where
  "updateProgress p s = s\<lparr>uploadStatus := (uploadStatus s)\<lparr>progress := min p 90\<rparr>\<rparr>"

definition intervalCallback :: "Interval \<Rightarrow> Home \<Rightarrow> Home" where
  "intervalCallback t s = updateProgress (interval_captured t + 5) s"

definition timeoutCallback :: "Home \<Rightarrow> Home" where
  "timeoutCallback s = s\<lparr>uploadStatus := (uploadStatus s)\<lparr>progress := 0\<rparr>\<rparr>"

text \<open>\<^verbatim>\<open>handleSubmit\<close> up to \<^verbatim>\<open>await fetch(...)\<close>.\<close>

definition handleSubmit :: "Home \<Rightarrow> Home" where
  "handleSubmit s =
     (case selectedFile s of
        None \<Rightarrow> s
      | Some f \<Rightarrow>
          let s1 = s\<lparr>uploadStatus := \<lparr>isLoading = True, progress = 0\<rparr>\<rparr>;
              (i, s2) = setInterval (progress (uploadStatus s)) 300 s1
          in s2\<lparr>submissions := submissions s2 @
                  [\<lparr>progressInterval = i, image = f, stage = AwaitFetch\<rparr>]\<rparr>)"

definition setStage :: "nat \<Rightarrow> Stage \<Rightarrow> Home \<Rightarrow> Home" where
  "setStage i st s =
     s\<lparr>submissions :=
         map (\<lambda>b. if progressInterval b = i then b\<lparr>stage := st\<rparr> else b) (submissions s)\<rparr>"

definition returned :: "nat \<Rightarrow> Home \<Rightarrow> Home" where
  "returned i s =
     s\<lparr>submissions := filter (\<lambda>b. progressInterval b \<noteq> i) (submissions s)\<rparr>"

definition catchBlock :: "Thrown \<Rightarrow> Home \<Rightarrow> Home" where
  "catchBlock e s =
     (let errorMessage =
            (case e of
               Error m \<Rightarrow> m
             | NonError \<Rightarrow> ''Unable to process the brain scan. Please try again.'');
          s1 = toast \<lparr>title = ''Analysis Failed'', description = Some errorMessage,
                      variant = Destructive\<rparr> s
      in s1\<lparr>predictionResult := None\<rparr>)"

definition finallyBlock :: "Home \<Rightarrow> Home" where
  "finallyBlock s =
     setTimeout 1000 (s\<lparr>uploadStatus := (uploadStatus s)\<lparr>isLoading := False\<rparr>\<rparr>)"

datatype FetchResult = FetchRejects Thrown | FetchResponds bool

datatype 'a JsonResult = JsonRejects Thrown | JsonResolves 'a

text \<open>
  From the settling of \<^verbatim>\<open>fetch\<close> to the next \<^verbatim>\<open>await\<close>; \<open>FetchResponds ok\<close>
  carries \<^verbatim>\<open>response.ok\<close>. A rejection goes straight to \<^verbatim>\<open>catch\<close>.
\<close>

definition afterFetch :: "nat \<Rightarrow> FetchResult \<Rightarrow> Home \<Rightarrow> Home" where
  "afterFetch i r s =
     (case r of
        FetchRejects e \<Rightarrow> returned i (finallyBlock (catchBlock e s))
      | FetchResponds ok \<Rightarrow>
          let s1 = clearInterval i s;
              s2 = s1\<lparr>uploadStatus := (uploadStatus s1)\<lparr>progress := 100\<rparr>\<rparr>
          in setStage i (if \<not> ok then AwaitErrorBody else AwaitBody) s2)"

text \<open>\<^verbatim>\<open>||\<close> takes the right operand for a missing and for an empty message.\<close>

definition afterErrorBody :: "nat \<Rightarrow> APIError JsonResult \<Rightarrow> Home \<Rightarrow> Home" where
  "afterErrorBody i r s =
     (case r of
        JsonRejects e \<Rightarrow> returned i (finallyBlock (catchBlock e s))
      | JsonResolves errorData \<Rightarrow>
          let m = (case api_message errorData of
                     None \<Rightarrow> ''Analysis failed''
                   | Some t \<Rightarrow> if t = [] then ''Analysis failed'' else t)
          in returned i (finallyBlock (catchBlock (Error m) s)))"

definition afterBody :: "nat \<Rightarrow> PredictionResponse JsonResult \<Rightarrow> Home \<Rightarrow> Home" where
  "afterBody i r s =
     (case r of
        JsonRejects e \<Rightarrow> returned i (finallyBlock (catchBlock e s))
      | JsonResolves data \<Rightarrow>
          let s1 = s\<lparr>predictionResult := Some data\<rparr>;
              s2 = toast \<lparr>title = ''Analysis Complete'', description = Some (message data),
                          variant = (if success data then Default else Destructive)\<rparr> s1
          in returned i (finallyBlock s2))"

subsection \<open>Rendering of a result\<close>

text \<open>\<^verbatim>\<open>String.prototype.includes\<close>: the second string occurs in the first.\<close>

fun startsWith :: "string \<Rightarrow> string \<Rightarrow> bool" where
  "startsWith s [] = True"
| "startsWith [] (c # cs) = False"
| "startsWith (x # xs) (c # cs) = (x = c \<and> startsWith xs cs)"

fun includesStr :: "string \<Rightarrow> string \<Rightarrow> bool" where
  "includesStr [] m = startsWith [] m"
| "includesStr (x # xs) m = (startsWith (x # xs) m \<or> includesStr xs m)"

text \<open>
  The \<^verbatim>\<open>Alert\<close> shown for a prediction result: its variant, the part of its class
  name that varies, its title, its text and the confidence label.
\<close>

record Alert =
  alertVariant :: Variant
  alertClass :: string
  alertTitle :: string
  alertText :: string
  confidenceLabel :: string

definition resultAlert :: "PredictionResponse \<Rightarrow> Alert" where
  "resultAlert r =
     \<lparr>alertVariant = (if includesStr (prediction r) ''No tumor'' then Default else Destructive),
      alertClass =
        (if includesStr (prediction r) ''No tumor''
         then ''bg-gradient-to-r from-green-50 to-emerald-50 border-l-4 border-l-green-500''
         else ''bg-gradient-to-r from-red-50 to-rose-50 border-l-4 border-l-red-500''),
      alertTitle =
        (if includesStr (prediction r) ''No tumor'' then ''No Tumor Detected''
         else ''Tumor Detected''),
      alertText = prediction r,
      confidenceLabel = (if confidence_class r = 1 then ''High'' else ''Low'')\<rparr>"

definition renderResult :: "Home \<Rightarrow> Alert option" where
  "renderResult s = map_option resultAlert (predictionResult s)"

subsection \<open>Events\<close>

text \<open>
  What can happen to a mounted component: the user's actions on the elements that are
  rendered and enabled, timers firing, and the promises of a suspended
  \<^verbatim>\<open>handleSubmit\<close> settling. Each event runs to its end and is followed by a render
  before the next one, so every handler reads the current state, except the interval's
  callback, which keeps the \<^verbatim>\<open>uploadStatus\<close> captured at submission. An event that
  cannot happen in a state (a timer that is not pending, a promise nobody awaits)
  leaves it as it is.
\<close>

datatype Event =
    Drop "File list"
  | InputChange "File list"
  | ClickReset
  | ClickSubmit
  | IntervalFires nat
  | TimeoutFires nat
  | FetchSettles nat FetchResult
  | ErrorBodySettles nat "APIError JsonResult"
  | BodySettles nat "PredictionResponse JsonResult"

text \<open>
  The submit button carries \<^verbatim>\<open>disabled={!selectedFile || uploadStatus.isLoading}\<close>,
  and a disabled button dispatches no click. The reset button is rendered only
  under \<^verbatim>\<open>preview &&\<close>.
\<close>

definition submitDisabled :: "Home \<Rightarrow> bool" where
  "submitDisabled s = (selectedFile s = None \<or> isLoading (uploadStatus s))"

definition stageOf :: "nat \<Rightarrow> Home \<Rightarrow> Stage option" where
  "stageOf i s = map_option stage (find (\<lambda>b. progressInterval b = i) (submissions s))"

definition handle :: "Event \<Rightarrow> Home \<Rightarrow> Home" where
  "handle e s =
     (case e of
        Drop files \<Rightarrow> handleDrop files s
      | InputChange files \<Rightarrow> handleFileInputChange files s
      | ClickReset \<Rightarrow> if preview s = None then s else resetForm s
      | ClickSubmit \<Rightarrow> if submitDisabled s then s else handleSubmit s
      | IntervalFires i \<Rightarrow>
          (case find (\<lambda>t. interval_id t = i) (intervals s) of
             None \<Rightarrow> s
           | Some t \<Rightarrow> intervalCallback t s)
      | TimeoutFires i \<Rightarrow>
          if i \<in> set (map timeout_id (timeouts s)) then
            timeoutCallback (s\<lparr>timeouts := filter (\<lambda>t. timeout_id t \<noteq> i) (timeouts s)\<rparr>)
          else s
      | FetchSettles i r \<Rightarrow>
          if stageOf i s = Some AwaitFetch then afterFetch i r s else s
      | ErrorBodySettles i r \<Rightarrow>
          if stageOf i s = Some AwaitErrorBody then afterErrorBody i r s else s
      | BodySettles i r \<Rightarrow>
          if stageOf i s = Some AwaitBody then afterBody i r s else s)"

definition step :: "Event \<Rightarrow> Home \<Rightarrow> Home" where
  "step e s =
     (let s' = handle e s
      in if preview s' = preview s then s' else effectCleanup (preview s) s')"

fun run :: "Event list \<Rightarrow> Home \<Rightarrow> Home" where
  "run [] s = s"
| "run (e # es) s = run es (step e s)"

section \<open>Example values\<close>


text \<open>A file of exactly the largest accepted size, and two response bodies.\<close>

definition scan :: File where
  "scan = \<lparr>file_name = ''scan.png'', file_type = ''image/png'', file_size = 5242880\<rparr>"

definition refusal :: PredictionResponse where
  "refusal = \<lparr>success = False, prediction = ''No tumor'', confidence_class = 0,
              message = ''Model unavailable''\<rparr>"

definition glioma :: PredictionResponse where
  "glioma = \<lparr>success = True, prediction = ''Glioma detected'', confidence_class = 0,
             message = ''ok''\<rparr>"

text \<open>
  A component with a submission in flight after its first tick, and one whose
  submission has ended with a result.
\<close>

definition submitting :: Home where
  "submitting = run [InputChange [scan], ClickSubmit, IntervalFires 1] initial"

definition finished :: Home where
  "finished =
     run [InputChange [scan], ClickSubmit, FetchSettles 1 (FetchResponds True),
          BodySettles 1 (JsonResolves glioma)] initial"

text \<open>
  A component reset during its submission and given a file again: the first request is
  still awaited and loading is off. A component whose response has arrived and whose
  body is still being read. A second submission, started on \<open>finished\<close> before its
  timeout, and the same once its response has arrived and, during the reading of the
  body, that timeout has fired.
\<close>

definition reselected :: Home where
  "reselected = run [InputChange [scan], ClickSubmit, ClickReset, InputChange [scan]] initial"

definition responded :: Home where
  "responded = step (FetchSettles 1 (FetchResponds True)) submitting"

definition resubmitted :: Home where
  "resubmitted = step ClickSubmit finished"

definition overtaken :: Home where
  "overtaken = run [FetchSettles 3 (FetchResponds True), TimeoutFires 2] resubmitted"

text \<open>The events that resume the submission with the given \<^verbatim>\<open>progressInterval\<close>.\<close>

fun settles :: "nat \<Rightarrow> Event \<Rightarrow> bool" where
  "settles i (FetchSettles j r) = (j = i)"
| "settles i (ErrorBodySettles j r) = (j = i)"
| "settles i (BodySettles j r) = (j = i)"
| "settles i e = False"

section \<open>Invariant of the preview handle\<close>

text \<open>
  The live object URLs are exactly the one in \<^verbatim>\<open>preview\<close>, and it was created
  before the next one will be.
\<close>

definition previewInv :: "Home \<Rightarrow> bool" where
  "previewInv s =
     (case preview s of
        None \<Rightarrow> objectURLs s = []
      | Some u \<Rightarrow> objectURLs s = [u] \<and> u < nextURL s)"

definition sameURLs :: "Home \<Rightarrow> Home \<Rightarrow> bool" where
  "sameURLs s s' =
     (preview s' = preview s \<and> objectURLs s' = objectURLs s \<and> nextURL s' = nextURL s)"

section \<open>Evaluation and basic facts\<close>

lemmas defs = initial_def scan_def step_def handle_def handleFileInputChange_def handleDrop_def
  handleFileSelection_def validateFile_def MAX_FILE_SIZE_def ACCEPTED_IMAGE_TYPES_def
  createObjectURL_def revokeObjectURL_def effectCleanup_def toast_def
  resetForm_def handleSubmit_def setInterval_def clearInterval_def setTimeout_def
  submitDisabled_def stageOf_def intervalCallback_def timeoutCallback_def updateProgress_def
  afterFetch_def afterErrorBody_def afterBody_def catchBlock_def finallyBlock_def
  setStage_def returned_def Let_def

lemma submitting_eq:
  "submitting =
     \<lparr>selectedFile = Some scan, preview = Some 0, predictionResult = None,
      uploadStatus = \<lparr>isLoading = True, progress = 5\<rparr>,
      toasts = [], objectURLs = [0], nextURL = 1,
      intervals = [\<lparr>interval_id = 1, interval_captured = 0, interval_delay = 300\<rparr>],
      timeouts = [], nextTimer = 2,
      submissions = [\<lparr>progressInterval = 1, image = scan, stage = AwaitFetch\<rparr>]\<rparr>"
  by (simp add: submitting_def defs)

section \<open>Validation\<close>

text \<open>
  C5. \<^verbatim>\<open>validateFile\<close> accepts exactly a present file whose declared type is one of
  \<^verbatim>\<open>image/jpeg\<close>, \<^verbatim>\<open>image/png\<close>, \<^verbatim>\<open>image/gif\<close> and whose size is at most
  5 * 1024 * 1024 = 5242880 bytes (so exactly 5242880 bytes are accepted); a rejection
  carries the message of the first check that failed: missing file, then type, then size.
\<close>

theorem validateFile_accepts_iff:
  "isValid (validateFile file) =
     (\<exists>f. file = Some f
        \<and> file_type f \<in> {''image/jpeg'', ''image/png'', ''image/gif''}
        \<and> file_size f \<le> 5242880)
   \<and> error (validateFile file) =
     (case file of
        None \<Rightarrow> Some ''Please select a file''
      | Some f \<Rightarrow>
          if file_type f \<notin> {''image/jpeg'', ''image/png'', ''image/gif''}
          then Some ''Please upload a valid image file (JPEG, PNG, or GIF)''
          else if 5242880 < file_size f then Some ''File size must be less than 5MB''
          else None)"
  by (cases "file") (auto simp: validateFile_def MAX_FILE_SIZE_def ACCEPTED_IMAGE_TYPES_def)

theorem validateFile_accepts_iff_witness:
  "file_size scan = 5242880 \<and> isValid (validateFile (Some scan))
   \<and> \<not> isValid (validateFile (Some (scan\<lparr>file_size := 5242881\<rparr>)))
   \<and> error (validateFile (Some (scan\<lparr>file_size := 5242881\<rparr>))) =
       Some ''File size must be less than 5MB''
   \<and> \<not> isValid (validateFile (Some (scan\<lparr>file_type := ''image/webp''\<rparr>)))
   \<and> \<not> isValid (validateFile None)"
  using validateFile_accepts_iff [of "Some scan"]
    validateFile_accepts_iff [of "Some (scan\<lparr>file_size := 5242881\<rparr>)"]
    validateFile_accepts_iff [of "Some (scan\<lparr>file_type := ''image/webp''\<rparr>)"]
    validateFile_accepts_iff [of None]
  by (simp add: scan_def)

section \<open>The submit guard\<close>

lemma reselected_eq:
  "reselected =
     \<lparr>selectedFile = Some scan, preview = Some 1, predictionResult = None,
      uploadStatus = \<lparr>isLoading = False, progress = 0\<rparr>,
      toasts = [], objectURLs = [1], nextURL = 2,
      intervals = [\<lparr>interval_id = 1, interval_captured = 0, interval_delay = 300\<rparr>],
      timeouts = [], nextTimer = 2,
      submissions = [\<lparr>progressInterval = 1, image = scan, stage = AwaitFetch\<rparr>]\<rparr>"
  by (simp add: reselected_def defs)

lemma step_ClickSubmit:
  "step ClickSubmit s = (if submitDisabled s then s else handleSubmit s)"
  by (simp add: step_def handle_def handleSubmit_def setInterval_def split: option.splits)

lemma handleSubmit_with_file:
  "selectedFile s = Some f \<Longrightarrow>
   handleSubmit s =
     s\<lparr>uploadStatus := \<lparr>isLoading = True, progress = 0\<rparr>,
       intervals := intervals s @
         [\<lparr>interval_id = nextTimer s, interval_captured = progress (uploadStatus s),
           interval_delay = 300\<rparr>],
       nextTimer := Suc (nextTimer s),
       submissions := submissions s @
         [\<lparr>progressInterval = nextTimer s, image = f, stage = AwaitFetch\<rparr>]\<rparr>"
  by (simp add: handleSubmit_def setInterval_def)

text \<open>
  The claim C1 as written fails: the guard reads \<^verbatim>\<open>isLoading\<close>, not the pending
  requests. \<^verbatim>\<open>resetForm\<close> turns loading off without ending the request, and the
  reset button is enabled during a submission; once a file is selected again the submit
  button is enabled while the first request is still awaited, and a click starts a
  second one.
\<close>

theorem submit_in_flight_counterexample:
  "map stage (submissions reselected) = [AwaitFetch]
   \<and> step ClickSubmit reselected \<noteq> reselected
   \<and> map stage (submissions (step ClickSubmit reselected)) = [AwaitFetch, AwaitFetch]
   \<and> map interval_id (intervals (step ClickSubmit reselected)) = [1, 2]"
  by (simp add: reselected_eq step_ClickSubmit submitDisabled_def handleSubmit_with_file)

text \<open>
  C1, amended. A submit action leaves the whole state as it is exactly when the submit
  button is disabled, that is when \<^verbatim>\<open>isLoading\<close> is true or no file is selected: no
  new request, no new ticker, progress and result untouched. With a file selected and
  \<^verbatim>\<open>isLoading\<close> false it starts a submission, whether or not an earlier request is
  still awaited: loading on, progress 0, one more ticker and one more request for the
  selected file.
\<close>

theorem submit_ignored_iff_disabled:
  "(step ClickSubmit s = s \<longleftrightarrow> selectedFile s = None \<or> isLoading (uploadStatus s))
   \<and> (selectedFile s = Some f \<and> \<not> isLoading (uploadStatus s) \<longrightarrow>
        step ClickSubmit s =
          s\<lparr>uploadStatus := \<lparr>isLoading = True, progress = 0\<rparr>,
            intervals := intervals s @
              [\<lparr>interval_id = nextTimer s, interval_captured = progress (uploadStatus s),
                interval_delay = 300\<rparr>],
            nextTimer := Suc (nextTimer s),
            submissions := submissions s @
              [\<lparr>progressInterval = nextTimer s, image = f, stage = AwaitFetch\<rparr>]\<rparr>)"
proof -
  have started: "step ClickSubmit s =
          s\<lparr>uploadStatus := \<lparr>isLoading = True, progress = 0\<rparr>,
            intervals := intervals s @
              [\<lparr>interval_id = nextTimer s, interval_captured = progress (uploadStatus s),
                interval_delay = 300\<rparr>],
            nextTimer := Suc (nextTimer s),
            submissions := submissions s @
              [\<lparr>progressInterval = nextTimer s, image = g, stage = AwaitFetch\<rparr>]\<rparr>"
    if "selectedFile s = Some g" and "\<not> isLoading (uploadStatus s)" for g
    using that by (simp add: step_ClickSubmit submitDisabled_def handleSubmit_with_file)
  have ignored: "step ClickSubmit s = s"
    if "selectedFile s = None \<or> isLoading (uploadStatus s)"
    using that by (simp add: step_ClickSubmit submitDisabled_def)
  have changed: "step ClickSubmit s \<noteq> s"
    if "\<not> (selectedFile s = None \<or> isLoading (uploadStatus s))"
  proof
    assume same: "step ClickSubmit s = s"
    from that obtain g where g: "selectedFile s = Some g" and l: "\<not> isLoading (uploadStatus s)"
      by auto
    have "length (submissions (step ClickSubmit s)) = Suc (length (submissions s))"
      by (simp add: started [OF g l])
    with same show False by simp
  qed
  from started ignored changed show ?thesis by blast
qed

theorem submit_ignored_iff_disabled_witness:
  "isLoading (uploadStatus submitting) \<and> step ClickSubmit submitting = submitting
   \<and> selectedFile reselected = Some scan \<and> \<not> isLoading (uploadStatus reselected)
   \<and> step ClickSubmit reselected \<noteq> reselected
   \<and> length (submissions (step ClickSubmit reselected)) = 2"
proof -
  have h: "isLoading (uploadStatus submitting)" by (simp add: submitting_eq)
  have r: "selectedFile reselected = Some scan" "\<not> isLoading (uploadStatus reselected)"
    "length (submissions reselected) = 1"
    by (simp_all add: reselected_eq)
  have 1: "step ClickSubmit submitting = submitting"
    using submit_ignored_iff_disabled [of submitting scan] h by blast
  have 2: "step ClickSubmit reselected \<noteq> reselected"
    using submit_ignored_iff_disabled [of reselected scan, THEN conjunct1] r(1,2) by simp
  have "submissions (step ClickSubmit reselected) =
      submissions reselected @
        [\<lparr>progressInterval = nextTimer reselected, image = scan, stage = AwaitFetch\<rparr>]"
    using submit_ignored_iff_disabled [of reselected scan, THEN conjunct2] r(1,2) by simp
  then have 3: "length (submissions (step ClickSubmit reselected)) = 2"
    using r(3) by simp
  from h r(1,2) 1 2 3 show ?thesis by blast
qed

text \<open>
  The guard is the button's \<^verbatim>\<open>disabled\<close>: \<^verbatim>\<open>handleSubmit\<close> itself only returns
  early without a file, and run on a loading state it starts over.
\<close>

lemma handleSubmit_not_guarded:
  "isLoading (uploadStatus submitting) \<and> handleSubmit submitting \<noteq> submitting
   \<and> progress (uploadStatus (handleSubmit submitting)) = 0
   \<and> length (submissions (handleSubmit submitting)) = 2"
  by (simp add: submitting_eq handleSubmit_def setInterval_def)

section \<open>Steps of a suspended submission\<close>

lemma find_setStage:
  "find (\<lambda>b. progressInterval b = i)
     (map (\<lambda>b. if progressInterval b = i then b\<lparr>stage := st\<rparr> else b) bs) =
   map_option (\<lambda>b. b\<lparr>stage := st\<rparr>) (find (\<lambda>b. progressInterval b = i) bs)"
  by (induction bs) auto

lemma find_returned:
  "find (\<lambda>b. progressInterval b = i) (filter (\<lambda>b. progressInterval b \<noteq> i) bs) = None"
  by (induction bs) auto

lemma stageOf_setStage:
  "stageOf i s \<noteq> None \<Longrightarrow> stageOf i (setStage i st s) = Some st"
  by (auto simp: stageOf_def setStage_def find_setStage)

lemma stageOf_returned: "stageOf i (returned i s) = None"
  by (simp add: stageOf_def returned_def find_returned)

lemma afterFetch_responds:
  "afterFetch i (FetchResponds ok) s =
     s\<lparr>intervals := filter (\<lambda>t. interval_id t \<noteq> i) (intervals s),
       uploadStatus := (uploadStatus s)\<lparr>progress := 100\<rparr>,
       submissions :=
         map (\<lambda>b. if progressInterval b = i
                   then b\<lparr>stage := (if ok then AwaitBody else AwaitErrorBody)\<rparr> else b)
           (submissions s)\<rparr>"
  by (simp add: afterFetch_def clearInterval_def setStage_def)

lemma stageOf_afterFetch:
  "stageOf i s \<noteq> None \<Longrightarrow>
   stageOf i (afterFetch i (FetchResponds ok) s) =
     Some (if ok then AwaitBody else AwaitErrorBody)"
  by (auto simp: afterFetch_responds stageOf_def find_setStage)

lemma step_FetchSettles:
  "stageOf i s = Some AwaitFetch \<Longrightarrow> step (FetchSettles i r) s = afterFetch i r s"
  by (cases r)
     (simp_all add: step_def handle_def afterFetch_def clearInterval_def setStage_def
        returned_def finallyBlock_def catchBlock_def setTimeout_def toast_def)

lemma step_BodySettles:
  "stageOf i s = Some AwaitBody \<Longrightarrow> step (BodySettles i r) s = afterBody i r s"
  by (cases r)
     (simp_all add: step_def handle_def afterBody_def
        returned_def finallyBlock_def catchBlock_def setTimeout_def toast_def)

lemma step_ErrorBodySettles:
  "stageOf i s = Some AwaitErrorBody \<Longrightarrow>
   step (ErrorBodySettles i r) s = afterErrorBody i r s"
  by (cases r)
     (simp_all add: step_def handle_def afterErrorBody_def
        returned_def finallyBlock_def catchBlock_def setTimeout_def toast_def)

lemma afterBody_resolves:
  "afterBody i (JsonResolves d) s =
     s\<lparr>predictionResult := Some d,
       toasts := toasts s @
         [\<lparr>title = ''Analysis Complete'', description = Some (message d),
           variant = (if success d then Default else Destructive)\<rparr>],
       uploadStatus := (uploadStatus s)\<lparr>isLoading := False\<rparr>,
       timeouts := timeouts s @ [\<lparr>timeout_id = nextTimer s, timeout_delay = 1000\<rparr>],
       nextTimer := Suc (nextTimer s),
       submissions := filter (\<lambda>b. progressInterval b \<noteq> i) (submissions s)\<rparr>"
  by (simp add: afterBody_def toast_def finallyBlock_def setTimeout_def returned_def)

section \<open>A response that is ok but reports no success\<close>

text \<open>
  The claim C2 as written fails: after an ok response whose body has
  \<^verbatim>\<open>success = false\<close> the prediction result is not null.
\<close>

theorem ok_response_without_success_counterexample:
  "\<not> success refusal
   \<and> predictionResult
        (run [InputChange [scan], ClickSubmit, FetchSettles 1 (FetchResponds True),
              BodySettles 1 (JsonResolves refusal)] initial) \<noteq> None"
  by (simp add: refusal_def defs)

text \<open>
  Between the two awaits of a submission other events run. None of them resumes it, so
  it is still reading its body when the body arrives.
\<close>

lemma find_setStage_other:
  "i \<noteq> j \<Longrightarrow>
   find (\<lambda>b. progressInterval b = i)
     (map (\<lambda>b. if progressInterval b = j then b\<lparr>stage := st\<rparr> else b) bs) =
   find (\<lambda>b. progressInterval b = i) bs"
  by (induction bs) auto

lemma find_returned_other:
  "i \<noteq> j \<Longrightarrow>
   find (\<lambda>b. progressInterval b = i) (filter (\<lambda>b. progressInterval b \<noteq> j) bs) =
   find (\<lambda>b. progressInterval b = i) bs"
  by (induction bs) auto

lemma find_append_Some: "find P xs = Some x \<Longrightarrow> find P (xs @ ys) = Some x"
  by (induction xs) (auto split: if_splits)

lemma stageOf_step: "stageOf i (step e s) = stageOf i (handle e s)"
  by (simp add: step_def Let_def stageOf_def effectCleanup_def revokeObjectURL_def
      split: option.splits)

lemma stageOf_end_other:
  "i \<noteq> j \<Longrightarrow> stageOf i (returned j (finallyBlock (catchBlock e s))) = stageOf i s"
  by (simp add: stageOf_def returned_def finallyBlock_def catchBlock_def setTimeout_def
      toast_def find_returned_other)

lemma stageOf_afterFetch_other: "i \<noteq> j \<Longrightarrow> stageOf i (afterFetch j r s) = stageOf i s"
proof (cases r)
  case (FetchRejects e)
  then show ?thesis if "i \<noteq> j" using that by (simp add: afterFetch_def stageOf_end_other)
next
  case (FetchResponds ok)
  then show ?thesis if "i \<noteq> j"
    using that by (simp add: afterFetch_responds stageOf_def find_setStage_other)
qed

lemma stageOf_afterErrorBody_other:
  "i \<noteq> j \<Longrightarrow> stageOf i (afterErrorBody j r s) = stageOf i s"
  by (cases r) (simp_all add: afterErrorBody_def stageOf_end_other)

lemma stageOf_afterBody_other: "i \<noteq> j \<Longrightarrow> stageOf i (afterBody j r s) = stageOf i s"
proof (cases r)
  case (JsonRejects e)
  then show ?thesis if "i \<noteq> j" using that by (simp add: afterBody_def stageOf_end_other)
next
  case (JsonResolves d)
  then show ?thesis if "i \<noteq> j"
    using that by (simp add: afterBody_resolves stageOf_def find_returned_other)
qed

lemma stageOf_handleSubmit: "stageOf i s = Some st \<Longrightarrow> stageOf i (handleSubmit s) = Some st"
proof (cases "selectedFile s")
  case None
  then show ?thesis if "stageOf i s = Some st" using that by (simp add: handleSubmit_def)
next
  case (Some f)
  assume "stageOf i s = Some st"
  then obtain b where b: "find (\<lambda>b. progressInterval b = i) (submissions s) = Some b"
    and st: "stage b = st"
    by (auto simp: stageOf_def)
  from b have "find (\<lambda>b. progressInterval b = i) (submissions (handleSubmit s)) = Some b"
    by (simp add: handleSubmit_with_file [OF Some] find_append_Some)
  with st show ?thesis by (simp add: stageOf_def)
qed

lemma stageOf_handleFileSelection: "stageOf i (handleFileSelection file s) = stageOf i s"
  by (simp add: stageOf_def handleFileSelection_def toast_def createObjectURL_def
      revokeObjectURL_def Let_def split: option.splits)

lemma stageOf_step_other:
  assumes "\<not> settles i e" and "stageOf i s = Some st"
  shows "stageOf i (step e s) = Some st"
proof (cases e)
  case (Drop files)
  with assms(2) show ?thesis
    by (simp add: stageOf_step handle_def handleDrop_def stageOf_handleFileSelection)
next
  case (InputChange files)
  with assms(2) show ?thesis
    by (cases files) (simp_all add: stageOf_step handle_def handleFileInputChange_def
        stageOf_handleFileSelection)
next
  case ClickReset
  have "stageOf i (handle e s) = stageOf i s"
    by (simp add: ClickReset handle_def stageOf_def resetForm_def revokeObjectURL_def
        split: option.splits)
  with assms(2) show ?thesis by (simp add: stageOf_step)
next
  case ClickSubmit
  with assms(2) show ?thesis
    by (simp add: stageOf_step handle_def stageOf_handleSubmit)
next
  case (IntervalFires j)
  have "stageOf i (handle e s) = stageOf i s"
    by (simp add: IntervalFires handle_def stageOf_def intervalCallback_def
        updateProgress_def split: option.splits)
  with assms(2) show ?thesis by (simp add: stageOf_step)
next
  case (TimeoutFires j)
  have "stageOf i (handle e s) = stageOf i s"
    by (simp add: TimeoutFires handle_def stageOf_def timeoutCallback_def)
  with assms(2) show ?thesis by (simp add: stageOf_step)
next
  case (FetchSettles j r)
  with assms(1) have "i \<noteq> j" by simp
  with assms(2) FetchSettles show ?thesis
    by (simp add: stageOf_step handle_def stageOf_afterFetch_other)
next
  case (ErrorBodySettles j r)
  with assms(1) have "i \<noteq> j" by simp
  with assms(2) ErrorBodySettles show ?thesis
    by (simp add: stageOf_step handle_def stageOf_afterErrorBody_other)
next
  case (BodySettles j r)
  with assms(1) have "i \<noteq> j" by simp
  with assms(2) BodySettles show ?thesis
    by (simp add: stageOf_step handle_def stageOf_afterBody_other)
qed

lemma stageOf_run_other:
  "list_all (\<lambda>e. \<not> settles i e) es \<Longrightarrow> stageOf i s = Some st \<Longrightarrow>
   stageOf i (run es s) = Some st"
  by (induction es arbitrary: s) (simp_all add: stageOf_step_other)

lemma resubmitted_eq:
  "resubmitted =
     \<lparr>selectedFile = Some scan, preview = Some 0, predictionResult = Some glioma,
      uploadStatus = \<lparr>isLoading = True, progress = 0\<rparr>,
      toasts = [\<lparr>title = ''Analysis Complete'', description = Some ''ok'',
                 variant = Default\<rparr>],
      objectURLs = [0], nextURL = 1,
      intervals = [\<lparr>interval_id = 3, interval_captured = 100, interval_delay = 300\<rparr>],
      timeouts = [\<lparr>timeout_id = 2, timeout_delay = 1000\<rparr>], nextTimer = 4,
      submissions = [\<lparr>progressInterval = 3, image = scan, stage = AwaitFetch\<rparr>]\<rparr>"
  by (simp add: resubmitted_def finished_def glioma_def defs)

lemma overtaken_eq:
  "overtaken =
     \<lparr>selectedFile = Some scan, preview = Some 0, predictionResult = Some glioma,
      uploadStatus = \<lparr>isLoading = True, progress = 0\<rparr>,
      toasts = [\<lparr>title = ''Analysis Complete'', description = Some ''ok'',
                 variant = Default\<rparr>],
      objectURLs = [0], nextURL = 1, intervals = [], timeouts = [], nextTimer = 4,
      submissions = [\<lparr>progressInterval = 3, image = scan, stage = AwaitBody\<rparr>]\<rparr>"
  by (simp add: overtaken_def resubmitted_eq defs)

text \<open>
  C2, amended. For a submission whose response is ok and whose body has
  \<^verbatim>\<open>success = false\<close>: when the response arrives, its ticker is cleared and progress is
  set to 100, and the submission goes on to read the body. Whatever other events run
  meanwhile, when the body has been read the prediction result is the body (it is not
  cleared), loading is off, one destructive notification titled
  \<^verbatim>\<open>Analysis Complete\<close> carries the body's message, one timeout of 1000 is registered
  and the submission is over; progress is left as it is at that moment, which is 100
  when the body follows the response directly.
\<close>

theorem ok_response_without_success:
  "(stageOf i s = Some AwaitFetch \<longrightarrow>
      step (FetchSettles i (FetchResponds True)) s =
        s\<lparr>intervals := filter (\<lambda>t. interval_id t \<noteq> i) (intervals s),
          uploadStatus := (uploadStatus s)\<lparr>progress := 100\<rparr>,
          submissions :=
            map (\<lambda>b. if progressInterval b = i then b\<lparr>stage := AwaitBody\<rparr> else b)
              (submissions s)\<rparr>)
   \<and> (stageOf i s = Some AwaitFetch \<and> list_all (\<lambda>e. \<not> settles i e) es \<longrightarrow>
        stageOf i (run es (step (FetchSettles i (FetchResponds True)) s)) = Some AwaitBody)
   \<and> (stageOf i s' = Some AwaitBody \<and> \<not> success d \<longrightarrow>
        step (BodySettles i (JsonResolves d)) s' =
          s'\<lparr>predictionResult := Some d,
             toasts := toasts s' @
               [\<lparr>title = ''Analysis Complete'', description = Some (message d),
                 variant = Destructive\<rparr>],
             uploadStatus := (uploadStatus s')\<lparr>isLoading := False\<rparr>,
             timeouts := timeouts s' @
               [\<lparr>timeout_id = nextTimer s', timeout_delay = 1000\<rparr>],
             nextTimer := Suc (nextTimer s'),
             submissions := filter (\<lambda>b. progressInterval b \<noteq> i) (submissions s')\<rparr>
        \<and> stageOf i (step (BodySettles i (JsonResolves d)) s') = None)
   \<and> (stageOf i s = Some AwaitFetch \<and> \<not> success d \<longrightarrow>
        uploadStatus
          (step (BodySettles i (JsonResolves d))
             (step (FetchSettles i (FetchResponds True)) s)) =
        \<lparr>isLoading = False, progress = 100\<rparr>)"
proof -
  let ?s1 = "step (FetchSettles i (FetchResponds True)) s"
  have fetch: "?s1 = afterFetch i (FetchResponds True) s" if "stageOf i s = Some AwaitFetch"
    using that by (rule step_FetchSettles)
  have 1: "?s1 =
        s\<lparr>intervals := filter (\<lambda>t. interval_id t \<noteq> i) (intervals s),
          uploadStatus := (uploadStatus s)\<lparr>progress := 100\<rparr>,
          submissions :=
            map (\<lambda>b. if progressInterval b = i then b\<lparr>stage := AwaitBody\<rparr> else b)
              (submissions s)\<rparr>"
    if "stageOf i s = Some AwaitFetch"
    by (simp add: fetch [OF that] afterFetch_responds)
  have stage1: "stageOf i ?s1 = Some AwaitBody" if "stageOf i s = Some AwaitFetch"
    using that by (simp add: fetch [OF that] stageOf_afterFetch)
  have 2: "stageOf i (run es ?s1) = Some AwaitBody"
    if "stageOf i s = Some AwaitFetch" and "list_all (\<lambda>e. \<not> settles i e) es"
    using that(2) stage1 [OF that(1)] by (rule stageOf_run_other)
  have body: "step (BodySettles i (JsonResolves d)) t = afterBody i (JsonResolves d) t"
    if "stageOf i t = Some AwaitBody" for t
    using that by (rule step_BodySettles)
  have 3: "step (BodySettles i (JsonResolves d)) s' =
          s'\<lparr>predictionResult := Some d,
             toasts := toasts s' @
               [\<lparr>title = ''Analysis Complete'', description = Some (message d),
                 variant = Destructive\<rparr>],
             uploadStatus := (uploadStatus s')\<lparr>isLoading := False\<rparr>,
             timeouts := timeouts s' @
               [\<lparr>timeout_id = nextTimer s', timeout_delay = 1000\<rparr>],
             nextTimer := Suc (nextTimer s'),
             submissions := filter (\<lambda>b. progressInterval b \<noteq> i) (submissions s')\<rparr>"
    if "stageOf i s' = Some AwaitBody" and "\<not> success d"
    using that(2) by (simp add: body [OF that(1)] afterBody_resolves)
  have 4: "stageOf i (step (BodySettles i (JsonResolves d)) s') = None"
    if "stageOf i s' = Some AwaitBody"
    by (simp add: body [OF that] afterBody_def stageOf_returned)
  have 5: "uploadStatus (step (BodySettles i (JsonResolves d)) ?s1) =
        \<lparr>isLoading = False, progress = 100\<rparr>"
    if "stageOf i s = Some AwaitFetch"
    by (simp add: body [OF stage1 [OF that]] afterBody_resolves)
       (simp add: 1 [OF that])
  from 1 2 3 4 5 show ?thesis by blast
qed

theorem ok_response_without_success_witness:
  "stageOf 3 resubmitted = Some AwaitFetch \<and> \<not> success refusal
   \<and> \<not> settles 3 (TimeoutFires 2)
   \<and> overtaken = run [TimeoutFires 2] (step (FetchSettles 3 (FetchResponds True)) resubmitted)
   \<and> stageOf 3 overtaken = Some AwaitBody
   \<and> predictionResult (step (BodySettles 3 (JsonResolves refusal)) overtaken) = Some refusal
   \<and> uploadStatus (step (BodySettles 3 (JsonResolves refusal)) overtaken) =
       \<lparr>isLoading = False, progress = 0\<rparr>
   \<and> uploadStatus
        (step (BodySettles 3 (JsonResolves refusal))
           (step (FetchSettles 3 (FetchResponds True)) resubmitted)) =
       \<lparr>isLoading = False, progress = 100\<rparr>"
proof -
  have h1: "stageOf 3 resubmitted = Some AwaitFetch" by (simp add: resubmitted_eq stageOf_def)
  have h2: "\<not> success refusal" by (simp add: refusal_def)
  have h3: "list_all (\<lambda>e. \<not> settles 3 e) [TimeoutFires 2]" by simp
  have o: "overtaken =
      run [TimeoutFires 2] (step (FetchSettles 3 (FetchResponds True)) resubmitted)"
    by (simp add: overtaken_def)
  note T = ok_response_without_success
    [where i = 3 and s = resubmitted and es = "[TimeoutFires 2]" and s' = overtaken
       and d = refusal]
  from T h1 h3 have st: "stageOf 3 overtaken = Some AwaitBody"
    unfolding o by blast
  from T st h2 have eq: "step (BodySettles 3 (JsonResolves refusal)) overtaken =
      overtaken\<lparr>predictionResult := Some refusal,
         toasts := toasts overtaken @
           [\<lparr>title = ''Analysis Complete'', description = Some (message refusal),
             variant = Destructive\<rparr>],
         uploadStatus := (uploadStatus overtaken)\<lparr>isLoading := False\<rparr>,
         timeouts := timeouts overtaken @
           [\<lparr>timeout_id = nextTimer overtaken, timeout_delay = 1000\<rparr>],
         nextTimer := Suc (nextTimer overtaken),
         submissions := filter (\<lambda>b. progressInterval b \<noteq> 3) (submissions overtaken)\<rparr>"
    by blast
  have p: "predictionResult (step (BodySettles 3 (JsonResolves refusal)) overtaken) =
      Some refusal"
    by (simp add: eq)
  have u: "uploadStatus (step (BodySettles 3 (JsonResolves refusal)) overtaken) =
      \<lparr>isLoading = False, progress = 0\<rparr>"
    by (simp add: eq) (simp add: overtaken_eq)
  from T h1 h2 have d: "uploadStatus
        (step (BodySettles 3 (JsonResolves refusal))
           (step (FetchSettles 3 (FetchResponds True)) resubmitted)) =
       \<lparr>isLoading = False, progress = 100\<rparr>"
    by blast
  from h1 h2 o st p u d show ?thesis by simp
qed

section \<open>The ticker after the exchange\<close>

lemma respond_stops_ticker:
  "find (\<lambda>t. interval_id t = i) (intervals (afterFetch i (FetchResponds ok) s)) = None
   \<and> progress (uploadStatus (afterFetch i (FetchResponds ok) s)) = 100"
  by (simp add: afterFetch_responds find_None_iff)

lemma respond_then_tick:
  assumes "stageOf i s = Some AwaitFetch"
  shows "step (IntervalFires i) (step (FetchSettles i (FetchResponds ok)) s) =
         step (FetchSettles i (FetchResponds ok)) s"
proof -
  have "step (IntervalFires i) (afterFetch i (FetchResponds ok) s) =
        afterFetch i (FetchResponds ok) s"
    by (simp add: step_def handle_def respond_stops_ticker)
  then show ?thesis
    by (simp only: step_FetchSettles [OF assms])
qed

text \<open>
  C3 fails when \<^verbatim>\<open>fetch\<close> rejects: \<^verbatim>\<open>clearInterval\<close> and the forcing of progress
  to 100 stand after the \<^verbatim>\<open>await\<close> inside \<^verbatim>\<open>try\<close>, so a rejection skips both.
  The submission has returned and loading is off, progress is not 100, the interval is
  still running, and its next tick writes progress 5.
\<close>

theorem rejected_fetch_keeps_ticker:
  "(let s = run [InputChange [scan], ClickSubmit,
                FetchSettles 1 (FetchRejects (Error ''Failed to fetch''))] initial
    in submissions s = [] \<and> uploadStatus s = \<lparr>isLoading = False, progress = 0\<rparr>
     \<and> predictionResult s = None
     \<and> intervals s = [\<lparr>interval_id = 1, interval_captured = 0, interval_delay = 300\<rparr>]
     \<and> uploadStatus (step (IntervalFires 1) s) = \<lparr>isLoading = False, progress = 5\<rparr>)"
  by (simp add: defs)

section \<open>Framing of a result and variant of its notification\<close>

lemma startsWith_iff: "startsWith s m \<longleftrightarrow> (\<exists>q. s = m @ q)"
  by (induction s m rule: startsWith.induct) auto

lemma includesStr_iff: "includesStr s m \<longleftrightarrow> (\<exists>p q. s = p @ m @ q)"
proof (induction s)
  case Nil
  then show ?case by (cases m) auto
next
  case (Cons x xs)
  show ?case
  proof
    assume "includesStr (x # xs) m"
    then consider "startsWith (x # xs) m" | "includesStr xs m" by auto
    then show "\<exists>p q. x # xs = p @ m @ q"
    proof cases
      case 1
      then obtain q where "x # xs = m @ q" by (auto simp: startsWith_iff)
      then have "x # xs = [] @ m @ q" by simp
      then show ?thesis by blast
    next
      case 2
      then obtain p q where "xs = p @ m @ q" using Cons.IH by auto
      then have "x # xs = (x # p) @ m @ q" by simp
      then show ?thesis by blast
    qed
  next
    assume "\<exists>p q. x # xs = p @ m @ q"
    then obtain p q where pq: "x # xs = p @ m @ q" by blast
    show "includesStr (x # xs) m"
    proof (cases p)
      case Nil
      with pq have "startsWith (x # xs) m" by (auto simp: startsWith_iff)
      then show ?thesis by simp
    next
      case (Cons y p')
      with pq have "xs = p' @ m @ q" by simp
      then have "includesStr xs m" using Cons.IH by blast
      then show ?thesis by simp
    qed
  qed
qed

text \<open>
  The claim C4 as written fails for the notification: a label without the marker comes
  with a default notification when \<^verbatim>\<open>success\<close> is true, and the same label with
  \<^verbatim>\<open>success\<close> false comes with a destructive one.
\<close>

theorem notification_variant_counterexample:
  "\<not> includesStr (prediction glioma) ''No tumor''
   \<and> map variant
        (toasts (run [InputChange [scan], ClickSubmit, FetchSettles 1 (FetchResponds True),
                      BodySettles 1 (JsonResolves glioma)] initial)) = [Default]
   \<and> prediction (glioma\<lparr>success := False\<rparr>) = prediction glioma
   \<and> map variant
        (toasts (run [InputChange [scan], ClickSubmit, FetchSettles 1 (FetchResponds True),
                      BodySettles 1 (JsonResolves (glioma\<lparr>success := False\<rparr>))] initial)) =
       [Destructive]"
  by (simp add: glioma_def defs)

text \<open>
  C4, amended. Whether the label contains \<^verbatim>\<open>No tumor\<close> alone decides the framing of
  the rendered result (variant, colours and title of the alert); \<^verbatim>\<open>success\<close> plays no
  role there, and a label without the marker is framed as adverse. The variant of the
  notification is decided by \<^verbatim>\<open>success\<close> alone: default when true, destructive
  when false, whatever the label.
\<close>

theorem framing_by_label_notification_by_success:
  "(includesStr (prediction r) ''No tumor'' \<longleftrightarrow> (\<exists>p q. prediction r = p @ ''No tumor'' @ q))
   \<and> (includesStr (prediction r) ''No tumor'' \<longrightarrow>
        alertVariant (resultAlert r) = Default
        \<and> alertTitle (resultAlert r) = ''No Tumor Detected''
        \<and> alertClass (resultAlert r) =
            ''bg-gradient-to-r from-green-50 to-emerald-50 border-l-4 border-l-green-500'')
   \<and> (\<not> includesStr (prediction r) ''No tumor'' \<longrightarrow>
        alertVariant (resultAlert r) = Destructive
        \<and> alertTitle (resultAlert r) = ''Tumor Detected''
        \<and> alertClass (resultAlert r) =
            ''bg-gradient-to-r from-red-50 to-rose-50 border-l-4 border-l-red-500'')
   \<and> renderResult (s\<lparr>predictionResult := Some r\<rparr>) = Some (resultAlert r)
   \<and> toasts (afterBody i (JsonResolves r) s) = toasts s @
        [\<lparr>title = ''Analysis Complete'', description = Some (message r),
          variant = (if success r then Default else Destructive)\<rparr>]"
  by (simp add: includesStr_iff resultAlert_def renderResult_def afterBody_resolves)

theorem framing_by_label_notification_by_success_witness:
  "\<not> includesStr (prediction glioma) ''No tumor''
   \<and> alertVariant (resultAlert glioma) = Destructive
   \<and> alertVariant (resultAlert (glioma\<lparr>success := False\<rparr>)) = Destructive
   \<and> includesStr (prediction refusal) ''No tumor''
   \<and> alertVariant (resultAlert refusal) = Default
   \<and> map variant (toasts (afterBody 1 (JsonResolves refusal) submitting)) = [Destructive]
   \<and> map variant (toasts (afterBody 1 (JsonResolves glioma) submitting)) = [Default]"
proof -
  have g: "\<not> includesStr (prediction glioma) ''No tumor''" by (simp add: glioma_def)
  have g': "\<not> includesStr (prediction (glioma\<lparr>success := False\<rparr>)) ''No tumor''"
    by (simp add: glioma_def)
  have r: "includesStr (prediction refusal) ''No tumor''" by (simp add: refusal_def)
  have t: "toasts submitting = []" by (simp add: submitting_eq)
  have sr: "\<not> success refusal" and sg: "success glioma"
    by (simp_all add: refusal_def glioma_def)
  show ?thesis
    using framing_by_label_notification_by_success [where r = glioma and i = 1 and s = submitting]
      framing_by_label_notification_by_success
        [where r = "glioma\<lparr>success := False\<rparr>" and i = 1 and s = submitting]
      framing_by_label_notification_by_success [where r = refusal and i = 1 and s = submitting]
      g g' r t sr sg
    by simp
qed


section \<open>Progress ticks\<close>

lemma tick_progress:
  "find (\<lambda>t. interval_id t = i) (intervals s) = Some t \<Longrightarrow>
   step (IntervalFires i) s =
     s\<lparr>uploadStatus := (uploadStatus s)\<lparr>progress := min (interval_captured t + 5) 90\<rparr>\<rparr>"
  by (simp add: step_def handle_def intervalCallback_def updateProgress_def)

lemma tick_at_most_90: "progress (uploadStatus (intervalCallback t s)) \<le> 90"
  by (simp add: intervalCallback_def updateProgress_def)

lemma handleSubmit_ticker:
  "selectedFile s = Some f \<Longrightarrow>
   intervals (handleSubmit s) = intervals s @
     [\<lparr>interval_id = nextTimer s, interval_captured = progress (uploadStatus s),
       interval_delay = 300\<rparr>]
   \<and> uploadStatus (handleSubmit s) = \<lparr>isLoading = True, progress = 0\<rparr>"
  by (simp add: handleSubmit_def setInterval_def)

text \<open>
  C6 fails at the second tick. The interval's callback computes
  \<^verbatim>\<open>uploadStatus.progress + 5\<close> from the \<^verbatim>\<open>uploadStatus\<close> of the render in which
  \<^verbatim>\<open>handleSubmit\<close> was created, so every tick writes the same value: after a
  submission started at progress 0, the first tick gives 5 and the second gives 5 again,
  not 10. Progress does stay at most 90.
\<close>

theorem second_tick_adds_nothing:
  "(let s1 = run [InputChange [scan], ClickSubmit, IntervalFires 1] initial;
        s2 = step (IntervalFires 1) s1
    in uploadStatus s1 = \<lparr>isLoading = True, progress = 5\<rparr>
     \<and> map interval_id (intervals s1) = [1]
     \<and> map stage (submissions s1) = [AwaitFetch]
     \<and> uploadStatus s2 = \<lparr>isLoading = True, progress = 5\<rparr>)"
  by (simp add: defs)

section \<open>The preview handle\<close>

lemma previewInv_initial: "previewInv initial"
  by (simp add: previewInv_def initial_def)

lemma handleFileSelection_valid:
  "isValid (validateFile (Some f)) \<Longrightarrow>
   handleFileSelection (Some f) s =
     s\<lparr>objectURLs :=
         (case preview s of None \<Rightarrow> objectURLs s | Some u \<Rightarrow> removeAll u (objectURLs s))
           @ [nextURL s],
       nextURL := Suc (nextURL s),
       selectedFile := Some f, preview := Some (nextURL s), predictionResult := None\<rparr>"
  by (simp add: handleFileSelection_def createObjectURL_def revokeObjectURL_def
      split: option.splits)

lemma handleFileSelection_invalid:
  "\<not> isValid (validateFile file) \<Longrightarrow>
   handleFileSelection file s =
     s\<lparr>toasts := toasts s @
         [\<lparr>title = ''Invalid File'', description = error (validateFile file),
           variant = Destructive\<rparr>]\<rparr>"
  by (simp add: handleFileSelection_def toast_def)

lemma previewInv_handleFileSelection:
  assumes "previewInv s"
  shows "previewInv (handleFileSelection file s)"
proof (cases "isValid (validateFile file)")
  case False
  with assms show ?thesis
    by (simp add: handleFileSelection_invalid previewInv_def split: option.splits)
next
  case True
  then obtain f where f: "file = Some f"
    by (cases "file") (simp_all add: validateFile_def)
  with True assms show ?thesis
    by (auto simp: handleFileSelection_valid previewInv_def split: option.splits)
qed

lemma previewInv_resetForm: "previewInv s \<Longrightarrow> previewInv (resetForm s)"
  by (auto simp: resetForm_def previewInv_def revokeObjectURL_def split: option.splits)

text \<open>Every other handler leaves the preview, the live URLs and the URL counter alone.\<close>

lemma sameURLs_finally_catch: "sameURLs s (returned i (finallyBlock (catchBlock e s)))"
  by (simp add: sameURLs_def returned_def finallyBlock_def catchBlock_def setTimeout_def
      toast_def)

lemma sameURLs_handleSubmit: "sameURLs s (handleSubmit s)"
  by (simp add: sameURLs_def handleSubmit_def setInterval_def split: option.splits)

lemma sameURLs_afterFetch: "sameURLs s (afterFetch i r s)"
proof (cases r)
  case (FetchRejects e)
  then show ?thesis by (simp add: afterFetch_def sameURLs_finally_catch)
next
  case (FetchResponds ok)
  then show ?thesis by (simp add: afterFetch_responds sameURLs_def)
qed

lemma sameURLs_afterErrorBody: "sameURLs s (afterErrorBody i r s)"
  by (cases r) (simp_all add: afterErrorBody_def sameURLs_finally_catch)

lemma sameURLs_afterBody: "sameURLs s (afterBody i r s)"
proof (cases r)
  case (JsonRejects e)
  then show ?thesis by (simp add: afterBody_def sameURLs_finally_catch)
next
  case (JsonResolves d)
  then show ?thesis by (simp add: afterBody_resolves sameURLs_def)
qed

lemma sameURLs_previewInv: "sameURLs s s' \<Longrightarrow> previewInv s \<Longrightarrow> previewInv s'"
  by (simp add: sameURLs_def previewInv_def split: option.splits)

lemma previewInv_handle:
  assumes "previewInv s"
  shows "previewInv (handle e s)"
proof (cases e)
  case (Drop files)
  with assms show ?thesis
    by (simp add: handle_def handleDrop_def previewInv_handleFileSelection)
next
  case (InputChange files)
  with assms show ?thesis
    by (cases files) (simp_all add: handle_def handleFileInputChange_def
        previewInv_handleFileSelection)
next
  case ClickReset
  with assms show ?thesis by (simp add: handle_def previewInv_resetForm)
next
  case ClickSubmit
  with assms sameURLs_previewInv [OF sameURLs_handleSubmit] show ?thesis
    by (simp add: handle_def)
next
  case (IntervalFires i)
  with assms show ?thesis
    by (simp add: handle_def intervalCallback_def updateProgress_def previewInv_def
        split: option.splits)
next
  case (TimeoutFires i)
  with assms show ?thesis
    by (simp add: handle_def timeoutCallback_def previewInv_def split: option.splits)
next
  case (FetchSettles i r)
  with assms sameURLs_previewInv [OF sameURLs_afterFetch] show ?thesis
    by (simp add: handle_def)
next
  case (ErrorBodySettles i r)
  with assms sameURLs_previewInv [OF sameURLs_afterErrorBody] show ?thesis
    by (simp add: handle_def)
next
  case (BodySettles i r)
  with assms sameURLs_previewInv [OF sameURLs_afterBody] show ?thesis
    by (simp add: handle_def)
qed

text \<open>
  The effect's cleanup revokes the handle of the previous render once more; the handler
  has revoked it already, and the new handle is a fresh one.
\<close>

lemma nextURL_handle: "nextURL s \<le> nextURL (handle e s)"
proof (cases e)
  case (Drop files)
  show ?thesis
    by (cases "isValid (validateFile (case files of [] \<Rightarrow> None | f # x \<Rightarrow> Some f))")
       (auto simp: Drop handle_def handleDrop_def handleFileSelection_invalid
          handleFileSelection_valid validateFile_def split: list.splits)
next
  case (InputChange files)
  show ?thesis
  proof (cases files)
    case Nil
    then show ?thesis by (simp add: InputChange handle_def handleFileInputChange_def)
  next
    case (Cons f fs)
    then show ?thesis
      by (cases "isValid (validateFile (Some f))")
         (simp_all add: InputChange handle_def handleFileInputChange_def
            handleFileSelection_invalid handleFileSelection_valid)
  qed
next
  case ClickReset
  then show ?thesis
    by (simp add: handle_def resetForm_def revokeObjectURL_def split: option.splits)
next
  case ClickSubmit
  with sameURLs_handleSubmit [of s] show ?thesis by (simp add: handle_def sameURLs_def)
next
  case (IntervalFires i)
  then show ?thesis
    by (simp add: handle_def intervalCallback_def updateProgress_def split: option.splits)
next
  case (TimeoutFires i)
  then show ?thesis by (simp add: handle_def timeoutCallback_def)
next
  case (FetchSettles i r)
  with sameURLs_afterFetch [of s i r] show ?thesis by (simp add: handle_def sameURLs_def)
next
  case (ErrorBodySettles i r)
  with sameURLs_afterErrorBody [of s i r] show ?thesis by (simp add: handle_def sameURLs_def)
next
  case (BodySettles i r)
  with sameURLs_afterBody [of s i r] show ?thesis by (simp add: handle_def sameURLs_def)
qed

lemma previewInv_step:
  assumes "previewInv s"
  shows "previewInv (step e s)"
proof -
  let ?s' = "handle e s"
  have inv': "previewInv ?s'" using assms by (rule previewInv_handle)
  show ?thesis
  proof (cases "preview ?s' = preview s")
    case True
    with inv' show ?thesis by (simp add: step_def Let_def)
  next
    case False
    show ?thesis
    proof (cases "preview s")
      case None
      with False inv' show ?thesis by (simp add: step_def effectCleanup_def Let_def)
    next
      case (Some u)
      with assms have "u < nextURL s" by (simp add: previewInv_def)
      with nextURL_handle [of s e] have u: "u < nextURL ?s'" by simp
      have "objectURLs ?s' = [] \<or> (\<exists>u'. preview ?s' = Some u' \<and> objectURLs ?s' = [u'])"
        using inv' by (auto simp: previewInv_def split: option.splits)
      with False Some inv' have "removeAll u (objectURLs ?s') = objectURLs ?s'"
        by auto
      with False Some inv' show ?thesis
        by (simp add: step_def effectCleanup_def revokeObjectURL_def previewInv_def Let_def)
    qed
  qed
qed

lemma previewInv_run: "previewInv s \<Longrightarrow> previewInv (run es s)"
  by (induction es arbitrary: s) (simp_all add: previewInv_step)


text \<open>
  C7. After any sequence of events on a freshly mounted component, so after any sequence
  of selections and resets, at most one object URL is live, and it is the one in
  \<^verbatim>\<open>preview\<close>. Selecting a valid file revokes the live URL before creating the new
  one, which is then the only live URL; a reset and an unmount leave none. Revoking
  twice is revoking once, and a reset without a live preview leaves the URLs as they are:
  resetting twice is resetting once.
\<close>

theorem at_most_one_live_preview:
  "length (objectURLs (run es initial)) \<le> 1
   \<and> set (objectURLs (run es initial)) = set_option (preview (run es initial))
   \<and> (isValid (validateFile (Some f)) \<longrightarrow>
        objectURLs (handleFileSelection (Some f) (run es initial)) =
          [nextURL (run es initial)]
        \<and> preview (handleFileSelection (Some f) (run es initial)) =
          Some (nextURL (run es initial))
        \<and> preview (run es initial) \<noteq> Some (nextURL (run es initial)))
   \<and> objectURLs (resetForm (run es initial)) = []
   \<and> objectURLs (unmount (run es initial)) = []
   \<and> revokeObjectURL u (revokeObjectURL u s) = revokeObjectURL u s
   \<and> (preview s = None \<longrightarrow> objectURLs (resetForm s) = objectURLs s)
   \<and> resetForm (resetForm s) = resetForm s"
proof -
  let ?s = "run es initial"
  have inv: "previewInv ?s"
    using previewInv_initial by (rule previewInv_run)
  have a: "length (objectURLs ?s) \<le> 1"
    using inv by (simp add: previewInv_def split: option.splits)
  have b: "set (objectURLs ?s) = set_option (preview ?s)"
    using inv by (simp add: previewInv_def split: option.splits)
  have c: "isValid (validateFile (Some f)) \<longrightarrow>
        objectURLs (handleFileSelection (Some f) ?s) = [nextURL ?s]
        \<and> preview (handleFileSelection (Some f) ?s) = Some (nextURL ?s)
        \<and> preview ?s \<noteq> Some (nextURL ?s)"
    using inv by (auto simp: handleFileSelection_valid previewInv_def split: option.splits)
  have d: "objectURLs (resetForm ?s) = []"
    using inv by (simp add: resetForm_def revokeObjectURL_def previewInv_def
        split: option.splits)
  have e: "objectURLs (unmount ?s) = []"
    using inv by (simp add: unmount_def effectCleanup_def revokeObjectURL_def previewInv_def
        split: option.splits)
  have f: "revokeObjectURL u (revokeObjectURL u s) = revokeObjectURL u s"
    by (simp add: revokeObjectURL_def)
  have g: "preview s = None \<longrightarrow> objectURLs (resetForm s) = objectURLs s"
    by (simp add: resetForm_def)
  have h: "resetForm (resetForm s) = resetForm s"
    by (simp add: resetForm_def revokeObjectURL_def split: option.splits)
  from a b c d e f g h show ?thesis by blast
qed

theorem at_most_one_live_preview_witness:
  "isValid (validateFile (Some scan))
   \<and> preview (run [InputChange [scan]] initial) = Some 0
   \<and> objectURLs (handleFileSelection (Some scan) (run [InputChange [scan]] initial)) = [1]
   \<and> preview initial = None
   \<and> objectURLs (resetForm initial) = objectURLs initial"
proof -
  have v: "isValid (validateFile (Some scan))"
    by (simp add: scan_def validateFile_def MAX_FILE_SIZE_def ACCEPTED_IMAGE_TYPES_def)
  have n: "nextURL (run [InputChange [scan]] initial) = 1"
      "preview (run [InputChange [scan]] initial) = Some 0"
    by (simp_all add: defs)
  have p: "preview initial = None" by (simp add: initial_def)
  show ?thesis
    using at_most_one_live_preview
      [where es = "[InputChange [scan]]" and f = scan and s = initial and u = 0] v n p
    by simp
qed

section \<open>The two resets\<close>

lemma finallyBlock_timeouts:
  "timeouts (finallyBlock s) = timeouts s @ [\<lparr>timeout_id = nextTimer s, timeout_delay = 1000\<rparr>]"
  by (simp add: finallyBlock_def setTimeout_def)

lemma finished_eq:
  "finished =
     \<lparr>selectedFile = Some scan, preview = Some 0, predictionResult = Some glioma,
      uploadStatus = \<lparr>isLoading = False, progress = 100\<rparr>,
      toasts = [\<lparr>title = ''Analysis Complete'', description = Some ''ok'',
                 variant = Default\<rparr>],
      objectURLs = [0], nextURL = 1, intervals = [],
      timeouts = [\<lparr>timeout_id = 2, timeout_delay = 1000\<rparr>], nextTimer = 3,
      submissions = []\<rparr>"
  by (simp add: finished_def glioma_def defs)

text \<open>
  C8. Every end of a submission (a rejected \<^verbatim>\<open>fetch\<close>, a body that cannot be read,
  an error body, a result) registers one timeout with delay 1000. When it fires it sets
  progress to 0 and nothing else: the selected file, the preview and its URL, the
  prediction result, the notifications and the loading flag stay as they are.
\<close>

theorem timeout_resets_only_progress:
  "timeouts (afterFetch i (FetchRejects x) s) =
     timeouts s @ [\<lparr>timeout_id = nextTimer s, timeout_delay = 1000\<rparr>]
   \<and> timeouts (afterErrorBody i b s) =
     timeouts s @ [\<lparr>timeout_id = nextTimer s, timeout_delay = 1000\<rparr>]
   \<and> timeouts (afterBody i r s) =
     timeouts s @ [\<lparr>timeout_id = nextTimer s, timeout_delay = 1000\<rparr>]
   \<and> (t \<in> set (map timeout_id (timeouts s)) \<longrightarrow>
        progress (uploadStatus (step (TimeoutFires t) s)) = 0)
   \<and> selectedFile (step (TimeoutFires t) s) = selectedFile s
   \<and> preview (step (TimeoutFires t) s) = preview s
   \<and> objectURLs (step (TimeoutFires t) s) = objectURLs s
   \<and> predictionResult (step (TimeoutFires t) s) = predictionResult s
   \<and> toasts (step (TimeoutFires t) s) = toasts s
   \<and> isLoading (uploadStatus (step (TimeoutFires t) s)) = isLoading (uploadStatus s)
   \<and> intervals (step (TimeoutFires t) s) = intervals s
   \<and> submissions (step (TimeoutFires t) s) = submissions s"
proof -
  have c: "timeouts (returned i (finallyBlock (catchBlock e s))) =
      timeouts s @ [\<lparr>timeout_id = nextTimer s, timeout_delay = 1000\<rparr>]" for e
    by (simp add: returned_def finallyBlock_def setTimeout_def catchBlock_def toast_def)
  have 1: "timeouts (afterFetch i (FetchRejects x) s) =
      timeouts s @ [\<lparr>timeout_id = nextTimer s, timeout_delay = 1000\<rparr>]"
    by (simp add: afterFetch_def c)
  have 2: "timeouts (afterErrorBody i b s) =
      timeouts s @ [\<lparr>timeout_id = nextTimer s, timeout_delay = 1000\<rparr>]"
    by (cases b) (simp_all add: afterErrorBody_def c)
  have 3: "timeouts (afterBody i r s) =
      timeouts s @ [\<lparr>timeout_id = nextTimer s, timeout_delay = 1000\<rparr>]"
  proof (cases r)
    case (JsonRejects e)
    then show ?thesis by (simp add: afterBody_def c)
  next
    case (JsonResolves d)
    then show ?thesis by (simp add: afterBody_resolves)
  qed
  have 4: "step (TimeoutFires t) s =
      (if t \<in> set (map timeout_id (timeouts s))
       then s\<lparr>timeouts := filter (\<lambda>x. timeout_id x \<noteq> t) (timeouts s),
              uploadStatus := (uploadStatus s)\<lparr>progress := 0\<rparr>\<rparr>
       else s)"
    by (simp add: step_def handle_def timeoutCallback_def)
  show ?thesis
    unfolding 4 using 1 2 3 by simp
qed

theorem timeout_resets_only_progress_witness:
  "2 \<in> set (map timeout_id (timeouts finished))
   \<and> uploadStatus finished = \<lparr>isLoading = False, progress = 100\<rparr>
   \<and> uploadStatus (step (TimeoutFires 2) finished) = \<lparr>isLoading = False, progress = 0\<rparr>
   \<and> selectedFile (step (TimeoutFires 2) finished) = Some scan
   \<and> preview (step (TimeoutFires 2) finished) = Some 0
   \<and> predictionResult (step (TimeoutFires 2) finished) = Some glioma"
proof -
  have h: "2 \<in> set (map timeout_id (timeouts finished))" by (simp add: finished_eq)
  have u: "uploadStatus finished = \<lparr>isLoading = False, progress = 100\<rparr>"
    "selectedFile finished = Some scan" "preview finished = Some 0"
    "predictionResult finished = Some glioma"
    by (simp_all add: finished_eq)
  have "uploadStatus (step (TimeoutFires 2) finished) =
      \<lparr>isLoading = isLoading (uploadStatus (step (TimeoutFires 2) finished)),
       progress = progress (uploadStatus (step (TimeoutFires 2) finished))\<rparr>"
    by simp
  then show ?thesis
    using timeout_resets_only_progress [where s = finished and t = 2] h u
    by simp
qed

text \<open>
  C9. \<^verbatim>\<open>resetForm\<close>, in any state, revokes the preview's URL if there is one, clears
  the selected file, the preview and the prediction result, and sets the upload status
  to not loading with progress 0, all in the call itself: it registers no timer. The
  reset button, shown whenever there is a preview, does exactly this.
\<close>

theorem resetForm_clears_at_once:
  "selectedFile (resetForm s) = None
   \<and> preview (resetForm s) = None
   \<and> predictionResult (resetForm s) = None
   \<and> uploadStatus (resetForm s) = \<lparr>isLoading = False, progress = 0\<rparr>
   \<and> objectURLs (resetForm s) =
       (case preview s of None \<Rightarrow> objectURLs s | Some u \<Rightarrow> removeAll u (objectURLs s))
   \<and> (\<forall>u. preview s = Some u \<longrightarrow> u \<notin> set (objectURLs (resetForm s)))
   \<and> timeouts (resetForm s) = timeouts s
   \<and> intervals (resetForm s) = intervals s
   \<and> nextTimer (resetForm s) = nextTimer s
   \<and> toasts (resetForm s) = toasts s
   \<and> (preview s \<noteq> None \<longrightarrow> step ClickReset s = resetForm s)"
  by (auto simp: resetForm_def revokeObjectURL_def step_def handle_def effectCleanup_def
      split: option.splits)

theorem resetForm_clears_at_once_witness:
  "preview finished = Some 0 \<and> objectURLs finished = [0]
   \<and> objectURLs (resetForm finished) = []
   \<and> step ClickReset finished = resetForm finished
   \<and> uploadStatus (resetForm finished) = \<lparr>isLoading = False, progress = 0\<rparr>"
proof -
  have h: "preview finished = Some 0" "objectURLs finished = [0]"
    by (simp_all add: finished_eq)
  show ?thesis
    using resetForm_clears_at_once [of finished] h by simp
qed

section \<open>A rejected selection\<close>

text \<open>
  C10. When validation rejects the candidate file, \<^verbatim>\<open>handleFileSelection\<close> raises one
  destructive notification with the reason and changes nothing else: the selected file,
  the preview and its URL, the prediction result and the upload status are as before.
  A drop of such a file, or of nothing, does the same.
\<close>

theorem rejected_selection_only_notifies:
  assumes "\<not> isValid (validateFile file)"
  shows "handleFileSelection file s =
           s\<lparr>toasts := toasts s @
               [\<lparr>title = ''Invalid File'', description = error (validateFile file),
                 variant = Destructive\<rparr>]\<rparr>
         \<and> step (Drop (case file of None \<Rightarrow> [] | Some f \<Rightarrow> [f])) s =
           handleFileSelection file s"
proof -
  have 1: "handleFileSelection file s =
           s\<lparr>toasts := toasts s @
               [\<lparr>title = ''Invalid File'', description = error (validateFile file),
                 variant = Destructive\<rparr>]\<rparr>"
    using assms by (rule handleFileSelection_invalid)
  have "handleDrop (case file of None \<Rightarrow> [] | Some f \<Rightarrow> [f]) s = handleFileSelection file s"
    by (cases "file") (simp_all add: handleDrop_def)
  then have "step (Drop (case file of None \<Rightarrow> [] | Some f \<Rightarrow> [f])) s = handleFileSelection file s"
    by (simp add: step_def handle_def 1)
  with 1 show ?thesis by simp
qed

theorem rejected_selection_only_notifies_witness:
  "\<not> isValid (validateFile (Some (scan\<lparr>file_size := 5242881\<rparr>)))
   \<and> handleFileSelection (Some (scan\<lparr>file_size := 5242881\<rparr>)) finished =
       finished\<lparr>toasts := toasts finished @
         [\<lparr>title = ''Invalid File'', description = Some ''File size must be less than 5MB'',
           variant = Destructive\<rparr>]\<rparr>"
proof -
  have h: "\<not> isValid (validateFile (Some (scan\<lparr>file_size := 5242881\<rparr>)))"
    by (simp add: scan_def validateFile_def MAX_FILE_SIZE_def ACCEPTED_IMAGE_TYPES_def)
  have e: "error (validateFile (Some (scan\<lparr>file_size := 5242881\<rparr>))) =
      Some ''File size must be less than 5MB''"
    by (simp add: scan_def validateFile_def MAX_FILE_SIZE_def ACCEPTED_IMAGE_TYPES_def)
  from rejected_selection_only_notifies [OF h, of finished] h e show ?thesis
    by simp
qed

end
